theory Spec2Isabelle
  imports Main "HOL-Library.AList"
begin

section \<open>Data model of the circuit script (app.py)\<close>

text \<open>
  The script keeps every circuit definition in Python dictionaries. A dictionary is
  modelled as an association list with distinct keys in insertion order: storing under
  a key that is present replaces the value at the key's position, storing under a new
  key appends (\<open>AList.update\<close>). Python exceptions are values of \<open>py_error\<close>.
\<close>

datatype py_error = KeyError | IndexError | SyntaxError | NameError | TypeError

type_synonym 'v pydict = "(string \<times> 'v) list"

text \<open>The value stored for one component (line 28): the dictionary with the keys
  \<open>inputs\<close>, \<open>output\<close>, \<open>expr\<close> and \<open>delay\<close> (the fields carry the prefix
  \<open>comp_\<close>).\<close>

record component =
  comp_inputs :: "string list"
  comp_output :: string
  comp_expr :: string
  comp_delay :: int

type_synonym circuit = "component pydict pydict"

text \<open>What the sidebar supplies for one component (lines 23 to 27): its name, the
  comma separated inputs, the output variable, the expression text and the delay.\<close>

record component_form =
  comp_name :: string
  input_text :: string
  output_var :: string
  expr_text :: string
  delay_units :: int

subsection \<open>String operations of Python used by the script\<close>

text \<open>\<open>s.split(c)\<close> for a separator of one character: the pieces between the
  separators, never an empty list.\<close>

fun split_on :: "char \<Rightarrow> string \<Rightarrow> string list" where
  "split_on c [] = [[]]"
| "split_on c (x # xs) =
     (if x = c then [] # split_on c xs
      else (x # hd (split_on c xs)) # tl (split_on c xs))"

text \<open>\<open>s.strip()\<close>: the characters below 256 that \<open>str.isspace\<close> accepts are removed
  from both ends.\<close>

definition is_space :: "char \<Rightarrow> bool" where
  "is_space c = (of_char c \<in> {9, 10, 11, 12, 13, 28, 29, 30, 31, 32, 133, 160 :: nat})"

definition strip :: "string \<Rightarrow> string" where
  "strip s = rev (dropWhile is_space (rev (dropWhile is_space s)))"

text \<open>The position that an index \<open>i\<close> denotes in a list of \<open>n\<close> items: Python counts
  a negative index from the end, and an index outside \<open>-n .. n-1\<close> denotes none.\<close>

definition norm_index :: "nat \<Rightarrow> int \<Rightarrow> nat option" where
  "norm_index n i =
     (if 0 \<le> i \<and> i < int n then Some (nat i)
      else if - int n \<le> i \<and> i < 0 then Some (nat (int n + i))
      else None)"

text \<open>\<open>xs[i]\<close> and \<open>xs[i] = v\<close>: \<open>IndexError\<close> where the index denotes no position.\<close>

definition getitem :: "'a list \<Rightarrow> int \<Rightarrow> py_error + 'a" where
  "getitem xs i =
     (case norm_index (length xs) i of
        None \<Rightarrow> Inl IndexError
      | Some j \<Rightarrow> Inr (xs ! j))"

definition setitem :: "'a list \<Rightarrow> int \<Rightarrow> 'a \<Rightarrow> py_error + 'a list" where
  "setitem xs i v =
     (case norm_index (length xs) i of
        None \<Rightarrow> Inl IndexError
      | Some j \<Rightarrow> Inr (xs[j := v]))"

text \<open>\<open>range(a, b)\<close> as the list of its values.\<close>

definition py_range :: "int \<Rightarrow> int \<Rightarrow> int list" where
  "py_range a b = [a..b - 1]"

subsection \<open>Building the sub-circuit dictionaries (lines 17 to 29)\<close>

definition make_component :: "component_form \<Rightarrow> component" where
  "make_component f =
     \<lparr>comp_inputs = split_on CHR '','' (input_text f), comp_output = output_var f,
      comp_expr = expr_text f, comp_delay = delay_units f\<rparr>"

text \<open>The inner loop: \<open>components_dict[comp_name] = {...}\<close> for each form in turn.\<close>

definition components_dict :: "component_form list \<Rightarrow> component pydict" where
  "components_dict fs =
     fold (\<lambda>f d. AList.update (comp_name f) (make_component f) d) fs []"

text \<open>The outer loop: \<open>subcircuits[sc_name] = components_dict\<close>.\<close>

definition subcircuits :: "(string \<times> component_form list) list \<Rightarrow> circuit" where
  "subcircuits scs =
     fold (\<lambda>(sc_name, fs) d. AList.update sc_name (components_dict fs) d) scs []"

text \<open>The components in the order in which the nested loops
  \<open>for comps in subcircuits.values(): for comp in comps.values()\<close> meet them.\<close>

definition all_components :: "circuit \<Rightarrow> component list" where
  "all_components circ = concat (map (\<lambda>sc. map snd (snd sc)) circ)"

subsection \<open>The variable universe (lines 58 to 62)\<close>

definition all_vars :: "circuit \<Rightarrow> string set" where
  "all_vars circ =
     fold (\<lambda>(_, comps) vs.
        fold (\<lambda>(_, comp) vs. insert (comp_output comp) (vs \<union> set (comp_inputs comp))) comps vs)
       circ {}"

subsection \<open>The delay map (lines 69 to 76, without the evaluation of the formulas)\<close>

definition temporal_info :: "circuit \<Rightarrow> int pydict" where
  "temporal_info circ =
     fold (\<lambda>(_, comps) ti.
        fold (\<lambda>(_, comp) ti. AList.update (comp_output comp) (comp_delay comp) ti) comps ti)
       circ []"

subsection \<open>Temporal simulation (lines 92 to 96)\<close>

definition t_steps :: int where
  "t_steps = 3"

type_synonym table = "string \<rightharpoonup> int list"


text \<open>\<open>sim_table[comp_output][t] = 1\<close>: a missing key raises \<open>KeyError\<close>.\<close>

definition set_cell :: "table \<Rightarrow> string \<Rightarrow> int \<Rightarrow> py_error + table" where
  "set_cell tbl k t =
     (case tbl k of
        None \<Rightarrow> Inl KeyError
      | Some row \<Rightarrow>
          (case setitem row t 1 of
             Inl e \<Rightarrow> Inl e
           | Inr row' \<Rightarrow> Inr (tbl(k \<mapsto> row'))))"

fun for_steps :: "table \<Rightarrow> string \<Rightarrow> int list \<Rightarrow> py_error + table" where
  "for_steps tbl k [] = Inr tbl"
| "for_steps tbl k (t # ts) =
     (case set_cell tbl k t of
        Inl e \<Rightarrow> Inl e
      | Inr tbl' \<Rightarrow> for_steps tbl' k ts)"






subsection \<open>Binding and evaluating the formulas (lines 68 to 79)\<close>

text \<open>The expressions of sympy that the script inspects: its proof tree tells \<open>And\<close>,
  \<open>Or\<close> and \<open>Not\<close> apart by \<open>isinstance\<close> and treats every other object alike.
  \<open>Other cls args\<close> is an object of any other class.\<close>

datatype boolean =
    Symbol string
  | BooleanTrue
  | BooleanFalse
  | And "boolean list"
  | Or "boolean list"
  | Not boolean
  | Other string "boolean list"

text \<open>\<open>s.replace(old, new)\<close>, written \<open>replace old new s\<close>: the occurrences of \<open>old\<close>
  are found from the left and do not overlap; an empty \<open>old\<close> matches before every
  character and at the end.\<close>

function replace :: "string \<Rightarrow> string \<Rightarrow> string \<Rightarrow> string" where
  "replace old new [] = (if old = [] then new else [])"
| "replace old new (c # cs) =
     (if old = [] then new @ c # replace old new cs
      else if take (length old) (c # cs) = old
        then new @ replace old new (drop (length old) (c # cs))
        else c # replace old new cs)"
  by pat_completeness auto
termination
  by (relation "measure (\<lambda>(old, new, s). length s)") auto

text \<open>\<open>comp['expr'].split('=')[1].strip()\<close>\<close>

definition formula_text :: "string \<Rightarrow> py_error + string" where
  "formula_text e =
     (case getitem (split_on CHR ''='' e) 1 of
        Inl err \<Rightarrow> Inl err
      | Inr rhs \<Rightarrow> Inr (strip rhs))"

text \<open>\<open>f"var_map['{k}']"\<close>\<close>

definition var_ref :: "string \<Rightarrow> string" where
  "var_ref k = ''var_map['' @ [CHR 0x27] @ k @ [CHR 0x27] @ '']''"

text \<open>The loop of lines 73 and 74 over the keys of \<open>var_map\<close>. The keys are the printed
  names of the symbols, in the iteration order of a Python set, which the script does
  not fix: the order is the parameter \<open>ks\<close>.\<close>

definition bind_text :: "string list \<Rightarrow> string \<Rightarrow> string" where
  "bind_text ks s = fold (\<lambda>k s. replace k (var_ref k) s) ks s"

text \<open>Lines 72 to 75 for one component. Python's \<open>eval\<close> is the parameter \<open>ev\<close>: it
  raises or returns an expression for the text it is given.\<close>

definition bound_expr ::
  "(string \<Rightarrow> py_error + boolean) \<Rightarrow> string list \<Rightarrow> component \<Rightarrow> py_error + boolean" where
  "bound_expr ev ks c =
     (case formula_text (comp_expr c) of
        Inl err \<Rightarrow> Inl err
      | Inr s \<Rightarrow> ev (bind_text ks s))"

text \<open>The inner loop (lines 71 to 76): the state is \<open>evaluated_exprs\<close> and
  \<open>temporal_info\<close>; the first exception ends the loop.\<close>

fun evaluate_comps ::
  "(string \<Rightarrow> py_error + boolean) \<Rightarrow> string list \<Rightarrow> component pydict \<Rightarrow>
   boolean list \<times> int pydict \<Rightarrow> py_error + boolean list \<times> int pydict" where
  "evaluate_comps ev ks [] st = Inr st"
| "evaluate_comps ev ks ((_, c) # rest) (evaluated_exprs, ti) =
     (case bound_expr ev ks c of
        Inl err \<Rightarrow> Inl err
      | Inr v \<Rightarrow>
          evaluate_comps ev ks rest
            (evaluated_exprs @ [v], AList.update (comp_output c) (comp_delay c) ti))"

text \<open>The outer loop (line 70).\<close>

fun evaluate_subcircuits ::
  "(string \<Rightarrow> py_error + boolean) \<Rightarrow> string list \<Rightarrow> circuit \<Rightarrow>
   boolean list \<times> int pydict \<Rightarrow> py_error + boolean list \<times> int pydict" where
  "evaluate_subcircuits ev ks [] st = Inr st"
| "evaluate_subcircuits ev ks ((_, comps) # rest) st =
     (case evaluate_comps ev ks comps st of
        Inl err \<Rightarrow> Inl err
      | Inr st' \<Rightarrow> evaluate_subcircuits ev ks rest st')"

text \<open>Line 79: \<open>circuit_logic = And(*evaluated_exprs)\<close>. The constructor \<open>And\<close> of sympy
  is the parameter \<open>mk_and\<close>.\<close>

definition circuit_logic ::
  "(string \<Rightarrow> py_error + boolean) \<Rightarrow> (boolean list \<Rightarrow> boolean) \<Rightarrow> string list \<Rightarrow> circuit \<Rightarrow>
   py_error + boolean" where
  "circuit_logic ev mk_and ks circ =
     (case evaluate_subcircuits ev ks circ ([], []) of
        Inl err \<Rightarrow> Inl err
      | Inr (evaluated_exprs, ti) \<Rightarrow> Inr (mk_and evaluated_exprs))"

subsection \<open>The proof tree (lines 105 to 135)\<close>

text \<open>How sympy prints an expression: \<open>str_of\<close> is \<open>str(expr)\<close> and \<open>repr_of\<close> is
  \<open>repr(expr)\<close>, which Python uses for the items of a tuple.\<close>

record printer =
  str_of :: "boolean \<Rightarrow> string"
  repr_of :: "boolean \<Rightarrow> string"

text \<open>A non-negative integer in decimal, as an f-string prints it.\<close>

definition digit_char :: "nat \<Rightarrow> char" where
  "digit_char d = char_of (48 + d)"

fun str_nat :: "nat \<Rightarrow> string" where
  "str_nat n = (if n < 10 then [digit_char n] else str_nat (n div 10) @ [digit_char (n mod 10)])"

declare str_nat.simps [simp del]

text \<open>The number that a decimal text denotes.\<close>

definition digits_value :: "string \<Rightarrow> nat" where
  "digits_value s = foldl (\<lambda>a c. 10 * a + (of_char c - 48)) 0 s"

text \<open>\<open>sep.join(items)\<close>\<close>

fun join :: "string \<Rightarrow> string list \<Rightarrow> string" where
  "join sep [] = []"
| "join sep [s] = s"
| "join sep (s # t # ss) = s @ sep @ join sep (t # ss)"

text \<open>The text of a tuple whose items print as \<open>items\<close>.\<close>

definition tuple_repr :: "string list \<Rightarrow> string" where
  "tuple_repr items =
     (case items of
        [] \<Rightarrow> ''()''
      | [s] \<Rightarrow> ''('' @ s @ '',)''
      | _ \<Rightarrow> ''('' @ join '', '' items @ '')'')"

fun describe_expr :: "printer \<Rightarrow> boolean \<Rightarrow> string" where
  "describe_expr pr (And args) = ''AND combines: '' @ tuple_repr (map (repr_of pr) args)"
| "describe_expr pr (Or args) = ''OR combines: '' @ tuple_repr (map (repr_of pr) args)"
| "describe_expr pr (Not arg) = ''NOT of: '' @ str_of pr arg"
| "describe_expr pr e = ''Primitive output: '' @ str_of pr e"

text \<open>A statement of the graph: \<open>dot.node(node_id, label=, URL=, tooltip=)\<close> or
  \<open>dot.edge(parent, node_id)\<close>.\<close>

datatype dot_stmt =
    Node string string string string
  | Edge string string

text \<open>What the traversal changes: the counter (the list \<open>counter\<close>, a default argument
  created when the \<open>def\<close> statement runs), the dictionary \<open>node_explanations\<close> and the
  body of the graph \<open>dot\<close>.\<close>

record tree_state =
  counter :: nat
  node_explanations :: "string pydict"
  dot_body :: "dot_stmt list"

definition node_id :: "nat \<Rightarrow> string" where
  "node_id n = ''n'' @ str_nat n"

text \<open>Lines 120 to 127: the node of the expression, and the edge from its parent when
  \<open>parent\<close> is neither \<open>None\<close> nor the empty string.\<close>

definition add_node :: "printer \<Rightarrow> boolean \<Rightarrow> string option \<Rightarrow> tree_state \<Rightarrow> tree_state" where
  "add_node pr e parent st =
     (let nid = node_id (counter st);
          explanation = describe_expr pr e;
          body = dot_body st @ [Node nid (str_of pr e) (''#'' @ nid) explanation]
      in \<lparr>counter = counter st + 1,
          node_explanations = AList.update nid explanation (node_explanations st),
          dot_body =
            (case parent of
               None \<Rightarrow> body
             | Some p \<Rightarrow> if p = [] then body else body @ [Edge p nid])\<rparr>)"

text \<open>Lines 128 to 132: the operands are visited in the order of \<open>expr.args\<close>.\<close>

fun build_proof_tree_clickable ::
    "printer \<Rightarrow> boolean \<Rightarrow> string option \<Rightarrow> tree_state \<Rightarrow> tree_state"
  and build_args :: "printer \<Rightarrow> boolean list \<Rightarrow> string \<Rightarrow> tree_state \<Rightarrow> tree_state" where
  "build_proof_tree_clickable pr (And args) parent st =
     build_args pr args (node_id (counter st)) (add_node pr (And args) parent st)"
| "build_proof_tree_clickable pr (Or args) parent st =
     build_args pr args (node_id (counter st)) (add_node pr (Or args) parent st)"
| "build_proof_tree_clickable pr (Not arg) parent st =
     build_proof_tree_clickable pr arg (Some (node_id (counter st)))
       (add_node pr (Not arg) parent st)"
| "build_proof_tree_clickable pr (Symbol x) parent st = add_node pr (Symbol x) parent st"
| "build_proof_tree_clickable pr BooleanTrue parent st = add_node pr BooleanTrue parent st"
| "build_proof_tree_clickable pr BooleanFalse parent st = add_node pr BooleanFalse parent st"
| "build_proof_tree_clickable pr (Other c xs) parent st = add_node pr (Other c xs) parent st"
| "build_args pr [] parent st = st"
| "build_args pr (arg # args) parent st =
     build_args pr args parent (build_proof_tree_clickable pr arg (Some parent) st)"

text \<open>A call \<open>build_proof_tree_clickable(expr)\<close> with the defaults: no parent, a new
  graph, and the counter and dictionary in the state they are in.\<close>

definition call_build :: "printer \<Rightarrow> boolean \<Rightarrow> tree_state \<Rightarrow> tree_state" where
  "call_build pr e st = build_proof_tree_clickable pr e None (st\<lparr>dot_body := []\<rparr>)"

text \<open>The tree of one run of the script, whatever state \<open>prev\<close> an earlier run has
  left: line 105 creates the dictionary anew, the \<open>def\<close> of line 117 creates the
  counter \<open>[0]\<close> anew, and line 135 makes the only call.\<close>

definition proof_tree :: "printer \<Rightarrow> boolean \<Rightarrow> tree_state \<Rightarrow> tree_state" where
  "proof_tree pr e prev = call_build pr e (prev\<lparr>counter := 0, node_explanations := []\<rparr>)"

text \<open>The expressions the traversal visits, in its order, and their number.\<close>

fun operands :: "boolean \<Rightarrow> boolean list" where
  "operands (And args) = args"
| "operands (Or args) = args"
| "operands (Not arg) = [arg]"
| "operands e = []"

fun preorder :: "boolean \<Rightarrow> boolean list" where
  "preorder (And args) = And args # concat (map preorder args)"
| "preorder (Or args) = Or args # concat (map preorder args)"
| "preorder (Not arg) = Not arg # preorder arg"
| "preorder e = [e]"

text \<open>The nodes and the edges of a graph body, in the order of the calls.\<close>

fun nodes_of :: "dot_stmt list \<Rightarrow> (string \<times> string \<times> string \<times> string) list" where
  "nodes_of [] = []"
| "nodes_of (Node i l u t # ss) = (i, l, u, t) # nodes_of ss"
| "nodes_of (Edge p c # ss) = nodes_of ss"

fun edges_of :: "dot_stmt list \<Rightarrow> (string \<times> string) list" where
  "edges_of [] = []"
| "edges_of (Node i l u t # ss) = edges_of ss"
| "edges_of (Edge p c # ss) = (p, c) # edges_of ss"


subsection \<open>Pre-order numbering of an expression\<close>

text \<open>The numbers of the operands' nodes when the first operand gets the number \<open>c\<close>:
  each operand takes as many numbers as the traversal visits expressions in it.\<close>

fun child_ids :: "nat \<Rightarrow> boolean list \<Rightarrow> nat list" where
  "child_ids c [] = []"
| "child_ids c (a # as) = c # child_ids (c + length (preorder a)) as"

text \<open>The edges of the tree of an expression whose node has the number \<open>c\<close>, as pairs
  of numbers: from every node to the node of each of its operands.\<close>

fun tree_edges :: "nat \<Rightarrow> boolean \<Rightarrow> (nat \<times> nat) list"
  and child_edges :: "nat \<Rightarrow> nat \<Rightarrow> boolean list \<Rightarrow> (nat \<times> nat) list" where
  "tree_edges c (And args) = child_edges c (Suc c) args"
| "tree_edges c (Or args) = child_edges c (Suc c) args"
| "tree_edges c (Not arg) = (c, Suc c) # tree_edges (Suc c) arg"
| "tree_edges c (Symbol x) = []"
| "tree_edges c BooleanTrue = []"
| "tree_edges c BooleanFalse = []"
| "tree_edges c (Other cls xs) = []"
| "child_edges p c [] = []"
| "child_edges p c (a # as) = (p, c) # tree_edges c a @ child_edges p (c + length (preorder a)) as"

definition id_pair :: "nat \<times> nat \<Rightarrow> string \<times> string" where
  "id_pair = (\<lambda>(i, j). (node_id i, node_id j))"

text \<open>The edge that line 127 adds for a node numbered \<open>c\<close>.\<close>

definition parent_edge :: "string option \<Rightarrow> nat \<Rightarrow> (string \<times> string) list" where
  "parent_edge parent c =
     (case parent of None \<Rightarrow> [] | Some p \<Rightarrow> if p = [] then [] else [(p, node_id c)])"

text \<open>The nodes that a graph body gives the node \<open>nid\<close> as children.\<close>

definition children_of :: "string \<Rightarrow> dot_stmt list \<Rightarrow> string list" where
  "children_of nid body = map snd (filter (\<lambda>(p, c). p = nid) (edges_of body))"

text \<open>The node statement of the expression \<open>e\<close> numbered \<open>i\<close>.\<close>

definition node_row :: "printer \<Rightarrow> nat \<times> boolean \<Rightarrow> string \<times> string \<times> string \<times> string" where
  "node_row pr = (\<lambda>(i, e). (node_id i, str_of pr e, ''#'' @ node_id i, describe_expr pr e))"


subsection \<open>Example inputs\<close>



text \<open>The component that the sidebar proposes for the first sub-circuit when nothing is
  typed: inputs \<open>A,B\<close>, output \<open>Y11\<close>, expression \<open>Y11 = And(A,B)\<close>, delay 0.\<close>

definition default_form :: component_form where
  "default_form =
     \<lparr>comp_name = ''C11'', input_text = ''A,B'', output_var = ''Y11'',
      expr_text = ''Y11 = And(A,B)'', delay_units = 0\<rparr>"

definition default_circuit :: circuit where
  "default_circuit = subcircuits [(''SC1'', [default_form])]"

text \<open>Two components whose variable names occur nowhere else in their formulas.\<close>

definition two_gates :: circuit where
  "two_gates = subcircuits
     [(''SC1'',
       [\<lparr>comp_name = ''C1'', input_text = ''x'', output_var = ''Y1'',
          expr_text = ''Y1 = Not(x)'', delay_units = 2\<rparr>,
        \<lparr>comp_name = ''C2'', input_text = ''x,y'', output_var = ''Y2'',
          expr_text = ''Y2 = Or(x,y)'', delay_units = 0\<rparr>])]"


text \<open>What Python's \<open>eval\<close> answers to the texts that the examples hand to it. The
  last line is its answer to the text bound for the default component,
  \<open>var_map['A']nd(var_map['A'],var_map['B'])\<close>, which is no expression; the examples hand
  it no other text.\<close>

definition eval_on_examples :: "string \<Rightarrow> py_error + boolean" where
  "eval_on_examples s =
     (if s = ''Not(var_map['x'])'' then Inr (Not (Symbol ''x''))
      else if s = ''Or(var_map['x'],var_map['y'])'' then Inr (Or [Symbol ''x'', Symbol ''y''])
      else if s = ''Not(var_map['b'])'' then Inr (Not (Symbol ''b''))
      else Inl SyntaxError)"

text \<open>An \<open>And\<close> constructor for the examples: no argument gives \<open>true\<close>, one argument
  gives the argument, as in sympy; more arguments are kept as they are given.\<close>

definition plain_And :: "boolean list \<Rightarrow> boolean" where
  "plain_And es = (case es of [] \<Rightarrow> BooleanTrue | [e] \<Rightarrow> e | _ \<Rightarrow> And es)"

text \<open>A printer for the examples, in the notation of sympy: a symbol prints as its
  name, \<open>Not\<close> as \<open>~\<close>, \<open>And\<close> and \<open>Or\<close> as \<open>&\<close> and \<open>|\<close> between the operands, an
  operand that is itself an \<open>And\<close> or an \<open>Or\<close> in parentheses.\<close>

definition wrap :: "boolean \<Rightarrow> string \<Rightarrow> string" where
  "wrap e s =
     (case e of
        And _ \<Rightarrow> ''('' @ s @ '')''
      | Or _ \<Rightarrow> ''('' @ s @ '')''
      | _ \<Rightarrow> s)"

fun sstr :: "boolean \<Rightarrow> string" where
  "sstr (Symbol x) = x"
| "sstr BooleanTrue = ''True''"
| "sstr BooleanFalse = ''False''"
| "sstr (And args) = join '' & '' (map (\<lambda>a. wrap a (sstr a)) args)"
| "sstr (Or args) = join '' | '' (map (\<lambda>a. wrap a (sstr a)) args)"
| "sstr (Not arg) = ''~'' @ wrap arg (sstr arg)"
| "sstr (Other cls xs) = cls @ ''('' @ join '', '' (map sstr xs) @ '')''"

definition sympy_printer :: printer where
  "sympy_printer = \<lparr>str_of = sstr, repr_of = sstr\<rparr>"

section \<open>Properties\<close>

subsection \<open>The loops over the dictionaries\<close>

lemma temporal_info_components:
  "temporal_info circ =
     fold (\<lambda>comp ti. AList.update (comp_output comp) (comp_delay comp) ti) (all_components circ) []"
proof -
  have inner: "\<And>comps ti. fold (\<lambda>(_, comp) ti. AList.update (comp_output comp) (comp_delay comp) ti) comps ti
      = fold (\<lambda>comp ti. AList.update (comp_output comp) (comp_delay comp) ti) (map snd comps) ti"
    by (simp add: fold_map comp_def case_prod_unfold)
  have "\<And>acc. fold (\<lambda>(_, comps) ti.
        fold (\<lambda>(_, comp) ti. AList.update (comp_output comp) (comp_delay comp) ti) comps ti) circ acc
     = fold (\<lambda>comp ti. AList.update (comp_output comp) (comp_delay comp) ti)
         (concat (map (\<lambda>sc. map snd (snd sc)) circ)) acc"
    by (induction circ) (auto simp: inner)
  then show ?thesis by (simp add: temporal_info_def all_components_def)
qed
















text \<open>A delay below zero is outside the range of the sidebar's delay field; the loop
  would write to the row from the end, and below \<open>-3\<close> raise \<open>IndexError\<close>.\<close>

lemma delays_below_zero:
  "tbl k = Some [0, 0, 0] \<Longrightarrow> for_steps tbl k (py_range (- 1) t_steps) = Inr (tbl(k \<mapsto> [1, 1, 1]))"
  "tbl k = Some [0, 0, 0] \<Longrightarrow> for_steps tbl k (py_range (- 4) t_steps) = Inl IndexError"
  by (simp_all add: py_range_def t_steps_def upto.simps set_cell_def setitem_def norm_index_def)







subsection \<open>Composition\<close>

lemma evaluate_comps_result:
  "evaluate_comps ev ks comps (es, ti) = Inr (es', ti') \<longleftrightarrow>
     (\<exists>vs. map (bound_expr ev ks) (map snd comps) = map Inr vs \<and> es' = es @ vs \<and>
        ti' = fold (\<lambda>c. AList.update (comp_output c) (comp_delay c)) (map snd comps) ti)"
proof (induction comps arbitrary: es ti)
  case Nil
  then show ?case by auto
next
  case (Cons p comps)
  obtain n c where p: "p = (n, c)" by (cases p)
  show ?case
  proof (cases "bound_expr ev ks c")
    case (Inl err)
    then show ?thesis by (auto simp: p map_eq_Cons_conv)
  next
    case (Inr v)
    show ?thesis
      unfolding p using Inr Cons.IH[of "es @ [v]" "AList.update (comp_output c) (comp_delay c) ti"]
      by (auto simp: map_eq_Cons_conv Cons_eq_map_conv)
  qed
qed

lemma evaluate_subcircuits_result:
  "evaluate_subcircuits ev ks circ (es, ti) = Inr (es', ti') \<longleftrightarrow>
     (\<exists>vs. map (bound_expr ev ks) (all_components circ) = map Inr vs \<and> es' = es @ vs \<and>
        ti' = fold (\<lambda>c. AList.update (comp_output c) (comp_delay c)) (all_components circ) ti)"
proof (induction circ arbitrary: es ti)
  case Nil
  then show ?case by (auto simp: all_components_def)
next
  case (Cons p circ)
  obtain n comps where p: "p = (n, comps)" by (cases p)
  have split_map: "(\<exists>vs. map f (xs @ ys) = map Inr vs \<and> P vs) \<longleftrightarrow>
      (\<exists>us ws. map f xs = map Inr us \<and> map f ys = map Inr ws \<and> P (us @ ws))"
    for f :: "component \<Rightarrow> py_error + boolean" and xs ys P
    by (auto simp: map_eq_append_conv append_eq_map_conv) 
  show ?case
  proof (cases "evaluate_comps ev ks comps (es, ti)")
    case (Inl err)
    then have "\<not> (\<exists>vs. map (bound_expr ev ks) (map snd comps) = map Inr vs)"
      using evaluate_comps_result[of ev ks comps es ti] by (metis Inl_Inr_False surj_pair)
    then show ?thesis using Inl unfolding p all_components_def
      by (auto simp: map_eq_append_conv append_eq_map_conv)
  next
    case (Inr st)
    obtain es1 ti1 where st: "st = (es1, ti1)" by (cases st)
    from Inr st obtain us where us: "map (bound_expr ev ks) (map snd comps) = map Inr us"
      "es1 = es @ us" "ti1 = fold (\<lambda>c. AList.update (comp_output c) (comp_delay c)) (map snd comps) ti"
      using evaluate_comps_result[of ev ks comps es ti es1 ti1] by auto
    have ac: "all_components (p # circ) = map snd comps @ all_components circ"
      by (simp add: all_components_def p)
    show ?thesis
      unfolding ac using Inr st us Cons.IH[of es1 ti1]
      by (auto simp: p map_eq_append_conv append_eq_map_conv)
  qed
qed

lemma evaluated_temporal_info:
  "evaluate_subcircuits ev ks circ ([], []) = Inr (es, ti) \<Longrightarrow> ti = temporal_info circ"
  using evaluate_subcircuits_result[of ev ks circ "[]" "[]" es ti]
  by (simp add: temporal_info_components)

text \<open>
  Claim C7. The composed circuit logic is \<open>And\<close> applied to the bound expressions of
  all components, one for each component and in encounter order (the sub-circuits in
  the order of the dictionary, the components of each in the order of its dictionary).
  Each bound expression is the value of the component's own formula text with the
  variable references bound: nothing of another component's formula is substituted.
  The composition yields a value exactly when every formula evaluates.
\<close>

theorem circuit_logic_flat_conjunction:
  "(circuit_logic ev mk_and ks circ = Inr e) =
     (\<exists>es. map (bound_expr ev ks) (all_components circ) = map Inr es \<and> e = mk_and es)"
proof (cases "evaluate_subcircuits ev ks circ ([], [])")
  case (Inl err)
  then have "\<not> (\<exists>vs. map (bound_expr ev ks) (all_components circ) = map Inr vs)"
    using evaluate_subcircuits_result[of ev ks circ "[]" "[]"] by (metis Inl_Inr_False surj_pair)
  then show ?thesis using Inl by (auto simp: circuit_logic_def)
next
  case (Inr st)
  obtain es1 ti1 where st: "st = (es1, ti1)" by (cases st)
  from Inr st have "map (bound_expr ev ks) (all_components circ) = map Inr es1"
    using evaluate_subcircuits_result[of ev ks circ "[]" "[]" es1 ti1] by auto
  then show ?thesis using Inr st by (auto simp: circuit_logic_def inj_map_eq_map)
qed

lemma two_gates_value:
  "two_gates =
     [(''SC1'',
       [(''C1'', \<lparr>comp_inputs = [''x''], comp_output = ''Y1'',
                  comp_expr = ''Y1 = Not(x)'', comp_delay = 2\<rparr>),
        (''C2'', \<lparr>comp_inputs = [''x'', ''y''], comp_output = ''Y2'',
                  comp_expr = ''Y2 = Or(x,y)'', comp_delay = 0\<rparr>)])]"
  by (simp add: two_gates_def subcircuits_def components_dict_def make_component_def)

lemma formula_text_examples:
  "formula_text ''Y1 = Not(x)'' = Inr ''Not(x)''"
  "formula_text ''Y2 = Or(x,y)'' = Inr ''Or(x,y)''"
  "formula_text ''Y2 = Not(b)'' = Inr ''Not(b)''"
  "formula_text ''Y11 = And(A,B)'' = Inr ''And(A,B)''"
  by (simp_all add: formula_text_def getitem_def norm_index_def strip_def is_space_def)

lemma bind_text_examples:
  "bind_text [''x'', ''y'', ''Y1'', ''Y2''] ''Not(x)'' = ''Not(var_map['x'])''"
  "bind_text [''x'', ''y'', ''Y1'', ''Y2''] ''Or(x,y)'' = ''Or(var_map['x'],var_map['y'])''"
  "bind_text [''b'', ''Y2''] ''Not(b)'' = ''Not(var_map['b'])''"
  by (simp_all add: bind_text_def var_ref_def)

text \<open>
  The theorem at the circuit \<open>two_gates\<close>: the composed logic is the conjunction of
  \<open>Not(x)\<close> and \<open>Or(x,y)\<close>, in this order, and \<open>Y1\<close> is not replaced in it.
\<close>

theorem circuit_logic_flat_conjunction_witness:
  "circuit_logic eval_on_examples plain_And [''x'', ''y'', ''Y1'', ''Y2''] two_gates =
     Inr (And [Not (Symbol ''x''), Or [Symbol ''x'', Symbol ''y'']])"
proof -
  have "map (bound_expr eval_on_examples [''x'', ''y'', ''Y1'', ''Y2'']) (all_components two_gates) =
      map Inr [Not (Symbol ''x''), Or [Symbol ''x'', Symbol ''y'']]"
    by (simp add: two_gates_value all_components_def bound_expr_def formula_text_examples
        bind_text_examples eval_on_examples_def)
  then have "\<exists>es. map (bound_expr eval_on_examples [''x'', ''y'', ''Y1'', ''Y2'']) (all_components two_gates) =
        map Inr es \<and> plain_And [Not (Symbol ''x''), Or [Symbol ''x'', Symbol ''y'']] = plain_And es"
    by blast
  then have "circuit_logic eval_on_examples plain_And [''x'', ''y'', ''Y1'', ''Y2''] two_gates =
      Inr (plain_And [Not (Symbol ''x''), Or [Symbol ''x'', Symbol ''y'']])"
    by (rule iffD2[OF circuit_logic_flat_conjunction])
  then show ?thesis by (simp add: plain_And_def)
qed

subsection \<open>Names entered twice\<close>










subsection \<open>The empty circuit\<close>







subsection \<open>The binding of the default component\<close>

lemma default_bind:
  "bind_text [''A'', ''B'', ''Y11''] ''And(A,B)'' = ''var_map['A']nd(var_map['A'],var_map['B'])''"
  "bind_text [''A'', ''Y11'', ''B''] ''And(A,B)'' = ''var_map['A']nd(var_map['A'],var_map['B'])''"
  "bind_text [''B'', ''A'', ''Y11''] ''And(A,B)'' = ''var_map['A']nd(var_map['A'],var_map['B'])''"
  "bind_text [''B'', ''Y11'', ''A''] ''And(A,B)'' = ''var_map['A']nd(var_map['A'],var_map['B'])''"
  "bind_text [''Y11'', ''A'', ''B''] ''And(A,B)'' = ''var_map['A']nd(var_map['A'],var_map['B'])''"
  "bind_text [''Y11'', ''B'', ''A''] ''And(A,B)'' = ''var_map['A']nd(var_map['A'],var_map['B'])''"
  by (simp_all add: bind_text_def var_ref_def)

lemma default_circuit_value:
  "default_circuit =
     [(''SC1'', [(''C11'', \<lparr>comp_inputs = [''A'', ''B''], comp_output = ''Y11'',
                            comp_expr = ''Y11 = And(A,B)'', comp_delay = 0\<rparr>)])]"
  by (simp add: default_circuit_def default_form_def subcircuits_def components_dict_def
      make_component_def)

text \<open>
  Claim C5, at the component that the sidebar proposes by default. Its variables are
  \<open>A\<close>, \<open>B\<close> and \<open>Y11\<close>; its formula is \<open>And(A,B)\<close>. Whatever the order of the keys
  of \<open>var_map\<close>, the binding loop replaces the letter \<open>A\<close> inside the operator name
  \<open>And\<close> as well: it does not resolve identifier tokens. The text it hands to \<open>eval\<close>
  is no expression, and the run ends with Python's \<open>SyntaxError\<close>.
\<close>

theorem default_component_binding:
  "all_vars default_circuit = {''A'', ''B'', ''Y11''} \<and>
   formula_text (expr_text default_form) = Inr ''And(A,B)'' \<and>
   list_all (\<lambda>ks. bind_text ks ''And(A,B)'' = ''var_map['A']nd(var_map['A'],var_map['B'])'')
     [[''A'', ''B'', ''Y11''], [''A'', ''Y11'', ''B''], [''B'', ''A'', ''Y11''],
      [''B'', ''Y11'', ''A''], [''Y11'', ''A'', ''B''], [''Y11'', ''B'', ''A'']] \<and>
   circuit_logic eval_on_examples plain_And [''A'', ''B'', ''Y11''] default_circuit = Inl SyntaxError"
proof -
  have vars: "all_vars default_circuit = {''A'', ''B'', ''Y11''}"
    by (auto simp: default_circuit_value all_vars_def)
  have rhs: "formula_text (expr_text default_form) = Inr ''And(A,B)''"
    by (simp add: default_form_def formula_text_examples)
  have run: "circuit_logic eval_on_examples plain_And [''A'', ''B'', ''Y11''] default_circuit = Inl SyntaxError"
    by (simp add: circuit_logic_def default_circuit_value bound_expr_def formula_text_examples
        default_bind eval_on_examples_def)
  show ?thesis using vars rhs run by (simp add: default_bind)
qed

subsection \<open>The proof tree\<close>

lemma digits_value_snoc: "digits_value (s @ [c]) = 10 * digits_value s + (of_char c - 48)"
  by (simp add: digits_value_def)

lemma digit_char_value: "d < 10 \<Longrightarrow> of_char (digit_char d) - 48 = d"
  by (simp add: digit_char_def)

lemma digits_value_str_nat: "digits_value (str_nat n) = n"
proof (induction n rule: str_nat.induct)
  case (1 n)
  show ?case
  proof (cases "n < 10")
    case True
    then show ?thesis
      by (subst str_nat.simps) (simp add: digits_value_def digit_char_value)
  next
    case False
    then have "digits_value (str_nat (n div 10)) = n div 10" using "1.IH" by simp
    then show ?thesis using False
      by (subst str_nat.simps) (simp add: digits_value_snoc digit_char_value)
  qed
qed

lemma node_id_inj: "node_id i = node_id j \<longleftrightarrow> i = j"
proof
  assume "node_id i = node_id j"
  then have "str_nat i = str_nat j" by (simp add: node_id_def)
  then have "digits_value (str_nat i) = digits_value (str_nat j)" by simp
  then show "i = j" by (simp add: digits_value_str_nat)
qed simp

lemma nodes_of_append: "nodes_of (xs @ ys) = nodes_of xs @ nodes_of ys"
  by (induction xs rule: nodes_of.induct) auto

lemma edges_of_append: "edges_of (xs @ ys) = edges_of xs @ edges_of ys"
  by (induction xs rule: edges_of.induct) auto

lemma add_node_counter: "counter (add_node pr e parent st) = Suc (counter st)"
  by (simp add: add_node_def Let_def)

lemma add_node_nodes:
  "nodes_of (dot_body (add_node pr e parent st)) = nodes_of (dot_body st) @ [node_row pr (counter st, e)]"
  by (simp add: add_node_def Let_def nodes_of_append node_row_def split: option.splits)

lemma add_node_edges:
  "edges_of (dot_body (add_node pr e parent st)) = edges_of (dot_body st) @ parent_edge parent (counter st)"
  by (simp add: add_node_def Let_def edges_of_append parent_edge_def split: option.splits)

lemma add_node_explanations:
  "node_explanations (add_node pr e parent st) =
     AList.update (node_id (counter st)) (describe_expr pr e) (node_explanations st)"
  by (simp add: add_node_def Let_def)

lemma preorder_length_pos: "0 < length (preorder e)"
  by (cases e) auto

lemma build_counter:
  "counter (build_proof_tree_clickable pr e parent st) = counter st + length (preorder e)"
  "counter (build_args pr args p st) = counter st + length (concat (map preorder args))"
  by (induction pr e parent st and pr args p st rule: build_proof_tree_clickable_build_args.induct)
     (simp_all add: add_node_counter)

lemma build_nodes:
  "nodes_of (dot_body (build_proof_tree_clickable pr e parent st)) =
     nodes_of (dot_body st) @ map (node_row pr) (List.enumerate (counter st) (preorder e))"
  "nodes_of (dot_body (build_args pr args p st)) =
     nodes_of (dot_body st) @ map (node_row pr) (List.enumerate (counter st) (concat (map preorder args)))"
  by (induction pr e parent st and pr args p st rule: build_proof_tree_clickable_build_args.induct)
     (simp_all add: add_node_counter add_node_nodes build_counter enumerate_append_eq)


lemma node_id_nonempty: "node_id q \<noteq> []"
  by (simp add: node_id_def)

lemma parent_edge_node: "parent_edge (Some (node_id q)) c = [id_pair (q, c)]"
  by (simp add: parent_edge_def node_id_nonempty id_pair_def)

lemma build_edges:
  "edges_of (dot_body (build_proof_tree_clickable pr e parent st)) =
     edges_of (dot_body st) @ parent_edge parent (counter st) @ map id_pair (tree_edges (counter st) e)"
  "p = node_id q \<Longrightarrow> edges_of (dot_body (build_args pr args p st)) =
     edges_of (dot_body st) @ map id_pair (child_edges q (counter st) args)"
proof (induction pr e parent st and pr args p st arbitrary: and q
    rule: build_proof_tree_clickable_build_args.induct)
  case (3 pr arg parent st)
  show ?case
    by (simp add: "3.IH" add_node_counter add_node_edges parent_edge_node)
next
  case (9 pr arg args parent st)
  note first = "9.IH"(1)
  note rest = "9.IH"(2)[OF "9.prems"]
  show ?case
    using first rest by (simp add: "9.prems" build_counter parent_edge_node)
qed (simp_all add: add_node_counter add_node_edges)

lemma tree_edges_range:
  "(i, j) \<in> set (tree_edges c e) \<Longrightarrow> c \<le> i \<and> i < j \<and> j < c + length (preorder e)"
  "(i, j) \<in> set (child_edges p c args) \<Longrightarrow>
     (i = p \<or> c \<le> i) \<and> (i = p \<longrightarrow> c \<le> j) \<and> (i \<noteq> p \<longrightarrow> i < j) \<and> j < c + length (concat (map preorder args))"
proof (induction c e and p c args arbitrary: i j and i j rule: tree_edges_child_edges.induct)
  case (1 c args)
  then show ?case by fastforce
next
  case (2 c args)
  then show ?case by fastforce
next
  case (3 c arg)
  from "3.prems" consider "(i, j) = (c, Suc c)" | "(i, j) \<in> set (tree_edges (Suc c) arg)" by auto
  then show ?case
  proof cases
    case 1
    then show ?thesis using preorder_length_pos[of arg] by auto
  next
    case 2
    from "3.IH"[OF 2] show ?thesis by auto
  qed
next
  case (9 p c a as)
  from "9.prems" consider "(i, j) = (p, c)" | "(i, j) \<in> set (tree_edges c a)"
    | "(i, j) \<in> set (child_edges p (c + length (preorder a)) as)" by auto
  then show ?case
  proof cases
    case 1
    then show ?thesis using preorder_length_pos[of a] by auto
  next
    case 2
    from "9.IH"(1)[OF 2] show ?thesis by auto
  next
    case 3
    from "9.IH"(2)[OF 3] show ?thesis by auto
  qed
qed simp_all

lemma length_child_ids: "length (child_ids c args) = length args"
  by (induction args arbitrary: c) simp_all

lemma tree_edges_no_source:
  "p < c \<Longrightarrow> filter (\<lambda>(i, j). i = p) (tree_edges c e) = []"
  using tree_edges_range(1)[of _ _ c e] by (fastforce simp: filter_empty_conv)

lemma child_edges_sources:
  "p < c \<Longrightarrow> filter (\<lambda>(i, j). i = p) (child_edges p c args) = map (Pair p) (child_ids c args)"
proof (induction args arbitrary: c)
  case Nil
  then show ?case by simp
next
  case (Cons a as)
  have "p < c + length (preorder a)" using Cons.prems by simp
  then show ?case using Cons.prems by (simp add: Cons.IH tree_edges_no_source)
qed

lemma tree_edges_children:
  "filter (\<lambda>(i, j). i = c) (tree_edges c e) = map (Pair c) (child_ids (Suc c) (operands e))"
  by (cases e) (simp_all add: child_edges_sources tree_edges_no_source)

lemma tree_edges_targets:
  "map snd (tree_edges c e) = [Suc c ..< c + length (preorder e)]"
  "map snd (child_edges p c args) = [c ..< c + length (concat (map preorder args))]"
proof (induction c e and p c args rule: tree_edges_child_edges.induct)
  case (3 c arg)
  have pos: "Suc c < Suc c + length (preorder arg)" using preorder_length_pos[of arg] by simp
  have "map snd (tree_edges c (Not arg)) = Suc c # map snd (tree_edges (Suc c) arg)" by simp
  also have "\<dots> = Suc c # [Suc (Suc c) ..< Suc c + length (preorder arg)]"
    by (simp only: "3.IH")
  also have "\<dots> = [Suc c ..< Suc c + length (preorder arg)]"
    by (rule upt_conv_Cons[symmetric, OF pos])
  also have "Suc c + length (preorder arg) = c + length (preorder (Not arg))" by simp
  finally show ?case .
next
  case (9 p c a as)
  have pos: "c < c + length (preorder a)" using preorder_length_pos[of a] by simp
  have "map snd (child_edges p c (a # as)) =
      c # map snd (tree_edges c a) @ map snd (child_edges p (c + length (preorder a)) as)"
    by simp
  also have "\<dots> = (c # [Suc c ..< c + length (preorder a)]) @
      [c + length (preorder a) ..< c + length (preorder a) + length (concat (map preorder as))]"
    by (simp only: "9.IH" append_Cons)
  also have "c # [Suc c ..< c + length (preorder a)] = [c ..< c + length (preorder a)]"
    by (rule upt_conv_Cons[symmetric, OF pos])
  also have "[c ..< c + length (preorder a)] @
      [c + length (preorder a) ..< c + length (preorder a) + length (concat (map preorder as))] =
      [c ..< c + length (preorder a) + length (concat (map preorder as))]"
    by (rule upt_add_eq_append[symmetric]) simp
  also have "c + length (preorder a) + length (concat (map preorder as)) =
      c + length (concat (map preorder (a # as)))" by simp
  finally show ?case .
qed simp_all

lemma tree_edges_forward: "list_all (\<lambda>(i, j). i < j) (tree_edges c e)"
  using tree_edges_range(1)[of _ _ c e] by (auto simp: list_all_iff)

lemma filter_id_pair:
  "filter (\<lambda>(p, c). p = node_id k) (map id_pair es) = map id_pair (filter (\<lambda>(i, j). i = k) es)"
  by (induction es) (auto simp: id_pair_def node_id_inj)

lemma children_of_id_pairs:
  "map snd (filter (\<lambda>(p, c). p = node_id k) (map id_pair es)) =
     map node_id (map snd (filter (\<lambda>(i, j). i = k) es))"
  unfolding filter_id_pair by (induction es) (auto simp: id_pair_def)

lemma update_fresh: "k \<notin> fst ` set al \<Longrightarrow> AList.update k v al = al @ [(k, v)]"
  by (induction al) auto

lemma fold_update_fresh:
  "distinct (map k xs) \<Longrightarrow> set (map k xs) \<inter> fst ` set acc = {} \<Longrightarrow>
     fold (\<lambda>x al. AList.update (k x) (v x) al) xs acc = acc @ map (\<lambda>x. (k x, v x)) xs"
proof (induction xs arbitrary: acc)
  case Nil
  then show ?case by simp
next
  case (Cons x xs)
  have fresh: "k x \<notin> fst ` set acc" using Cons.prems(2) by auto
  have "fold (\<lambda>x al. AList.update (k x) (v x) al) xs (acc @ [(k x, v x)]) =
      (acc @ [(k x, v x)]) @ map (\<lambda>x. (k x, v x)) xs"
  proof (rule Cons.IH)
    show "distinct (map k xs)" using Cons.prems(1) by simp
    show "set (map k xs) \<inter> fst ` set (acc @ [(k x, v x)]) = {}"
      using Cons.prems by auto
  qed
  then show ?case by (simp add: update_fresh[OF fresh])
qed

lemma build_explanations:
  "node_explanations (build_proof_tree_clickable pr e parent st) =
     fold (\<lambda>x al. AList.update (node_id (fst x)) (describe_expr pr (snd x)) al)
       (List.enumerate (counter st) (preorder e)) (node_explanations st)"
  "node_explanations (build_args pr args p st) =
     fold (\<lambda>x al. AList.update (node_id (fst x)) (describe_expr pr (snd x)) al)
       (List.enumerate (counter st) (concat (map preorder args))) (node_explanations st)"
  by (induction pr e parent st and pr args p st rule: build_proof_tree_clickable_build_args.induct)
     (simp_all add: add_node_counter add_node_explanations build_counter enumerate_append_eq)

lemma distinct_node_ids: "distinct (map node_id [a ..< b])"
  by (simp add: distinct_map inj_on_def node_id_inj)

lemma proof_tree_start:
  "proof_tree pr e prev =
     build_proof_tree_clickable pr e None \<lparr>counter = 0, node_explanations = [], dot_body = []\<rparr>"
  by (cases prev) (simp add: proof_tree_def call_build_def)

lemma proof_tree_nodes:
  "nodes_of (dot_body (proof_tree pr e prev)) = map (node_row pr) (List.enumerate 0 (preorder e))"
  by (simp add: proof_tree_start build_nodes)

lemma proof_tree_edges:
  "edges_of (dot_body (proof_tree pr e prev)) = map id_pair (tree_edges 0 e)"
  by (simp add: proof_tree_start build_edges parent_edge_def)

lemma node_row_ids: "map fst (map (node_row pr) (List.enumerate n xs)) = map node_id [n ..< n + length xs]"
  by (simp add: node_row_def case_prod_unfold comp_def flip: map_map[of node_id fst, unfolded comp_def])

lemma proof_tree_explanations:
  "node_explanations (proof_tree pr e prev) =
     map (\<lambda>x. (node_id (fst x), describe_expr pr (snd x))) (List.enumerate 0 (preorder e))"
proof -
  have ids: "map (\<lambda>x. node_id (fst x)) (List.enumerate 0 (preorder e)) =
      map node_id [0 ..< length (preorder e)]"
    using map_map[of node_id fst "List.enumerate 0 (preorder e)"] by (simp add: comp_def)
  have "fold (\<lambda>x al. AList.update (node_id (fst x)) (describe_expr pr (snd x)) al)
       (List.enumerate 0 (preorder e)) [] =
     [] @ map (\<lambda>x. (node_id (fst x), describe_expr pr (snd x))) (List.enumerate 0 (preorder e))"
    by (rule fold_update_fresh) (simp_all add: ids distinct_node_ids)
  then show ?thesis by (simp add: proof_tree_start build_explanations)
qed

text \<open>
  Claim C4. The tree of a run is determined by the expression (and by how it prints):
  a second run on the same expression, from whatever the first run has left, gives the
  same counter, dictionary and graph. The ids are \<open>n0\<close>, \<open>n1\<close>, ... in pre-order: the
  expression that the traversal visits as number \<open>k\<close>, a node before its operands and
  the operands in the order of \<open>expr.args\<close>, has the id \<open>nk\<close>, its text as label and its
  explanation as tooltip. The ids are distinct. The edges are those of the expression
  tree under this numbering: every node but the root has exactly one incoming edge, and
  it comes from a node with a smaller number.
\<close>

theorem proof_tree_preorder_ids:
  "proof_tree pr e (proof_tree pr e prev) = proof_tree pr e prev \<and>
   counter (proof_tree pr e prev) = length (preorder e) \<and>
   nodes_of (dot_body (proof_tree pr e prev)) = map (node_row pr) (List.enumerate 0 (preorder e)) \<and>
   map fst (nodes_of (dot_body (proof_tree pr e prev))) = map node_id [0 ..< length (preorder e)] \<and>
   distinct (map fst (nodes_of (dot_body (proof_tree pr e prev)))) \<and>
   edges_of (dot_body (proof_tree pr e prev)) = map id_pair (tree_edges 0 e) \<and>
   map snd (edges_of (dot_body (proof_tree pr e prev))) = map node_id [1 ..< length (preorder e)] \<and>
   list_all (\<lambda>(i, j). i < j) (tree_edges 0 e) \<and>
   node_explanations (proof_tree pr e prev) =
     map (\<lambda>x. (node_id (fst x), describe_expr pr (snd x))) (List.enumerate 0 (preorder e))"
proof -
  have again: "proof_tree pr e (proof_tree pr e prev) = proof_tree pr e prev"
    by (simp add: proof_tree_start)
  have count: "counter (proof_tree pr e prev) = length (preorder e)"
    by (simp add: proof_tree_start build_counter)
  have ids: "map fst (nodes_of (dot_body (proof_tree pr e prev))) = map node_id [0 ..< length (preorder e)]"
    unfolding proof_tree_nodes node_row_ids by simp
  have dist: "distinct (map fst (nodes_of (dot_body (proof_tree pr e prev))))"
    unfolding ids by (rule distinct_node_ids)
  have targets: "map snd (edges_of (dot_body (proof_tree pr e prev))) = map node_id [1 ..< length (preorder e)]"
  proof -
    have "map snd (map id_pair (tree_edges 0 e)) = map node_id (map snd (tree_edges 0 e))"
      by (simp add: id_pair_def case_prod_unfold)
    then show ?thesis unfolding proof_tree_edges by (simp add: tree_edges_targets)
  qed
  show ?thesis
    using again count proof_tree_nodes[of pr e prev] ids dist proof_tree_edges[of pr e prev] targets
      tree_edges_forward[of 0 e] proof_tree_explanations[of pr e prev]
    by simp
qed

lemma second_call_nodes:
  "nodes_of (dot_body (call_build pr e (proof_tree pr e prev))) =
     map (node_row pr) (List.enumerate (length (preorder e)) (preorder e))"
proof -
  have "counter (proof_tree pr e prev) = length (preorder e)"
    by (simp add: proof_tree_start build_counter)
  then show ?thesis by (simp add: call_build_def build_nodes)
qed

lemma node_id_small:
  "node_id 0 = ''n0''" "node_id (Suc 0) = ''n1''" "node_id (Suc (Suc 0)) = ''n2''"
  "node_id (Suc (Suc (Suc 0))) = ''n3''" "node_id (Suc (Suc (Suc (Suc 0)))) = ''n4''"
  "node_id (Suc (Suc (Suc (Suc (Suc 0))))) = ''n5''"
  by code_simp+

text \<open>The tree of \<open>And(Not(x), Or(x, y))\<close> with the example printer.\<close>

lemma proof_tree_example:
  "dot_body (proof_tree sympy_printer (And [Not (Symbol ''x''), Or [Symbol ''x'', Symbol ''y'']]) prev) =
     [Node ''n0'' ''~x & (x | y)'' ''#n0'' ''AND combines: (~x, x | y)'',
      Node ''n1'' ''~x'' ''#n1'' ''NOT of: x'', Edge ''n0'' ''n1'',
      Node ''n2'' ''x'' ''#n2'' ''Primitive output: x'', Edge ''n1'' ''n2'',
      Node ''n3'' ''x | y'' ''#n3'' ''OR combines: (x, y)'', Edge ''n0'' ''n3'',
      Node ''n4'' ''x'' ''#n4'' ''Primitive output: x'', Edge ''n3'' ''n4'',
      Node ''n5'' ''y'' ''#n5'' ''Primitive output: y'', Edge ''n3'' ''n5'']"
  by (simp add: proof_tree_start add_node_def Let_def sympy_printer_def tuple_repr_def wrap_def
      node_id_small)

text \<open>
  The counter is a default argument: it lives as long as the function object. A second
  call without the \<open>def\<close> statement in between would go on counting where the first
  call stopped, so its ids would differ from those of the first call. The script calls
  the function once after each \<open>def\<close>.
\<close>

lemma second_call_continues_numbering:
  "map fst (nodes_of (dot_body (call_build pr e (proof_tree pr e prev)))) =
     map node_id [length (preorder e) ..< 2 * length (preorder e)] \<and>
   map fst (nodes_of (dot_body (call_build pr e (proof_tree pr e prev)))) \<noteq>
     map fst (nodes_of (dot_body (proof_tree pr e prev)))"
proof -
  let ?n = "length (preorder e)"
  have a: "map fst (nodes_of (dot_body (call_build pr e (proof_tree pr e prev)))) =
     map node_id [?n ..< 2 * ?n]"
    unfolding second_call_nodes node_row_ids by (simp add: mult_2)
  have b: "map fst (nodes_of (dot_body (proof_tree pr e prev))) = map node_id [0 ..< ?n]"
    unfolding proof_tree_nodes node_row_ids by simp
  have pos: "0 < ?n" by (rule preorder_length_pos)
  have "hd (map node_id [?n ..< 2 * ?n]) = node_id ?n" using pos by (simp add: hd_map upt_conv_Cons)
  moreover have "hd (map node_id [0 ..< ?n]) = node_id 0" using pos by (simp add: hd_map upt_conv_Cons)
  moreover have "node_id ?n \<noteq> node_id 0" using pos by (simp add: node_id_inj)
  ultimately have "map node_id [?n ..< 2 * ?n] \<noteq> map node_id [0 ..< ?n]" by metis
  then show ?thesis using a b by simp
qed

lemma children_of_root:
  "children_of (node_id 0) (dot_body (proof_tree pr e prev)) = map node_id (child_ids 1 (operands e))"
  unfolding children_of_def proof_tree_edges children_of_id_pairs tree_edges_children
  by (simp add: comp_def)

text \<open>
  Claim C9, with the texts of the code. The explanation of a symbol is
  \<open>Primitive output: \<close> followed by its printed name, of a \<open>Not\<close> node \<open>NOT of: \<close> followed
  by the operand, of an \<open>And\<close> node \<open>AND combines: \<close> (of an \<open>Or\<close> node
  \<open>OR combines: \<close>) followed by the tuple of its operands as Python prints it. In the
  tree of an expression the root has one child per operand: exactly one for \<open>Not\<close>, one
  for each argument of \<open>And\<close> and \<open>Or\<close>, none for a symbol. The same holds below the
  root: a call adds the edges of the expression's tree under the numbering that starts at
  the counter, and in these the edges that leave a node go to one node per operand.
\<close>

theorem explanations_and_children:
  "describe_expr pr (Symbol x) = ''Primitive output: '' @ str_of pr (Symbol x) \<and>
   describe_expr pr (Not arg) = ''NOT of: '' @ str_of pr arg \<and>
   describe_expr pr (And args) = ''AND combines: '' @ tuple_repr (map (repr_of pr) args) \<and>
   describe_expr pr (Or args) = ''OR combines: '' @ tuple_repr (map (repr_of pr) args) \<and>
   children_of (node_id 0) (dot_body (proof_tree pr (Not arg) prev)) = [node_id 1] \<and>
   children_of (node_id 0) (dot_body (proof_tree pr (And args) prev)) = map node_id (child_ids 1 args) \<and>
   children_of (node_id 0) (dot_body (proof_tree pr (Or args) prev)) = map node_id (child_ids 1 args) \<and>
   length (child_ids 1 args) = length args \<and>
   children_of (node_id 0) (dot_body (proof_tree pr (Symbol x) prev)) = [] \<and>
   edges_of (dot_body (build_proof_tree_clickable pr e parent st)) =
     edges_of (dot_body st) @ parent_edge parent (counter st) @ map id_pair (tree_edges (counter st) e) \<and>
   map snd (filter (\<lambda>(i, j). i = c) (tree_edges c e)) = child_ids (Suc c) (operands e) \<and>
   length (child_ids (Suc c) (operands e)) = length (operands e)"
  by (simp add: children_of_root length_child_ids build_edges tree_edges_children comp_def)

text \<open>
  The explanations of \<open>A\<close> and of \<open>Not(A)\<close> are not the texts
  \<open>primitive output: A\<close> and \<open>negation of: A\<close>.
\<close>

theorem explanations_counterexample:
  "describe_expr sympy_printer (Symbol ''A'') = ''Primitive output: A'' \<and>
   describe_expr sympy_printer (Symbol ''A'') \<noteq> ''primitive output: A'' \<and>
   describe_expr sympy_printer (Not (Symbol ''A'')) = ''NOT of: A'' \<and>
   describe_expr sympy_printer (Not (Symbol ''A'')) \<noteq> ''negation of: A''"
  by (simp add: sympy_printer_def)

end
